theory Spec2Isabelle
  imports
    Complex_Main
    "HOL-Library.AList"
    "HOL-Library.Char_ord"
    "HOL-Library.List_Lexorder"
    "HOL-Library.Multiset"
    "HOL-Library.Sublist"
begin


section \<open>The distributed context (src/dist.py, lines 11 to 28)\<close>

text \<open>
  The process-wide state of \<^verbatim>\<open>torch.distributed\<close> that the module reads:
  whether the package is available, whether a default group is initialised, and what
  \<^verbatim>\<open>dist.get_world_size()\<close> and \<^verbatim>\<open>dist.get_rank()\<close> return. Python integers are
  \<^typ>\<open>int\<close>.
\<close>

record dist_env =
  available :: bool
  initialized :: bool
  group_world_size :: int
  group_rank :: int

definition is_dist :: "dist_env \<Rightarrow> bool" where
  "is_dist env \<longleftrightarrow> available env \<and> initialized env"

definition world_size :: "dist_env \<Rightarrow> int" where
  "world_size env = (if \<not> is_dist env then 1 else group_world_size env)"

definition rank :: "dist_env \<Rightarrow> int" where
  "rank env = (if \<not> is_dist env then 0 else group_rank env)"

definition is_main :: "dist_env \<Rightarrow> bool" where
  "is_main env \<longleftrightarrow> rank env = 0"

text \<open>
  What the library guarantees of a live group: the rank of a member lies in
  \<open>[0, world_size)\<close>. A context with no group satisfies it trivially.
\<close>

definition valid_group :: "dist_env \<Rightarrow> bool" where
  "valid_group env \<longleftrightarrow>
     (\<not> is_dist env \<or> (0 \<le> group_rank env \<and> group_rank env < group_world_size env))"

text \<open>The context of rank \<open>i\<close> in a live group of \<open>n\<close> processes.\<close>

definition group_env :: "nat \<Rightarrow> nat \<Rightarrow> dist_env" where
  "group_env n i =
     \<lparr>available = True, initialized = True, group_world_size = int n, group_rank = int i\<rparr>"

text \<open>A process outside any group.\<close>

definition no_group :: dist_env where
  "no_group = \<lparr>available = True, initialized = False, group_world_size = 0, group_rank = 0\<rparr>"


section \<open>Errors and observable actions\<close>

text \<open>
  Every \<^verbatim>\<open>raise\<close> of the code is a value. \<open>UnsupportedReduction\<close> is the
  \<^verbatim>\<open>ValueError\<close> of \<^verbatim>\<open>sync_tensor\<close> (it carries the offending mode);
  \<open>TensorError\<close> is \<^verbatim>\<open>torch.tensor\<close> or \<^verbatim>\<open>torch.stack\<close> refusing its argument;
  \<open>GatherMismatch\<close> stands for an \<^verbatim>\<open>all_gather\<close> whose ranks contribute buffers of
  different shapes, which the library does not define; \<open>NotIterable\<close> is the
  \<^verbatim>\<open>TypeError\<close> of iterating a number; \<open>AssertionError\<close> is raised by
  \<^verbatim>\<open>dist.destroy_process_group\<close> when there is no group.
\<close>

datatype error =
    UnsupportedReduction "string option"
  | TensorError
  | GatherMismatch
  | NotIterable
  | AssertionError

text \<open>
  The collective calls and the entry and exit of a guarded block, as one process issues
  them, in program order.
\<close>

datatype action =
    AllGather
  | Barrier "int list option"
  | EnterBlock
  | LeaveBlock

fun is_barrier :: "action \<Rightarrow> bool" where
  "is_barrier (Barrier _) = True"
| "is_barrier _ = False"

definition count_barriers :: "action list \<Rightarrow> nat" where
  "count_barriers as = length (filter is_barrier as)"


section \<open>Numeric buffers\<close>

text \<open>
  A tensor is a shape and its elements in row-major order. Arithmetic is over
  \<^typ>\<open>real\<close>: the rounding of 32-bit floats is not modelled.
\<close>

record tensor =
  shape :: "nat list"
  data :: "real list"



definition zeros_like :: "tensor \<Rightarrow> tensor" where
  "zeros_like t = \<lparr>shape = shape t, data = replicate (length (data t)) 0\<rparr>"

definition same_shapes :: "tensor \<Rightarrow> tensor list \<Rightarrow> bool" where
  "same_shapes t ts = list_all (\<lambda>u. shape u = shape t) ts"

text \<open>
  \<^verbatim>\<open>torch.stack(ts, dim=0)\<close>: a new leading dimension of size \<open>length ts\<close>; it
  raises on an empty list and on tensors of different shapes.
\<close>

definition torch_stack :: "tensor list \<Rightarrow> error + tensor" where
  "torch_stack ts =
     (case ts of
        [] \<Rightarrow> Inl TensorError
      | t # _ \<Rightarrow>
          if same_shapes t ts
          then Inr \<lparr>shape = length ts # shape t, data = concat (map data ts)\<rparr>
          else Inl TensorError)"

text \<open>
  \<^verbatim>\<open>torch.sum(t, dim=0)\<close> and \<^verbatim>\<open>torch.mean(t, dim=0)\<close>: element \<open>j\<close> of the result
  combines the elements \<open>j\<close> of the \<open>n\<close> slices along the leading dimension. A
  0-dimensional tensor is returned as it is.
\<close>

definition torch_sum :: "tensor \<Rightarrow> tensor" where
  "torch_sum t =
     (case shape t of
        [] \<Rightarrow> t
      | n # s \<Rightarrow>
          \<lparr>shape = s,
           data = map (\<lambda>j. sum_list (map (\<lambda>i. data t ! (i * prod_list s + j)) [0..<n]))
                    [0..<prod_list s]\<rparr>)"

definition torch_mean :: "tensor \<Rightarrow> tensor" where
  "torch_mean t =
     (case shape t of
        [] \<Rightarrow> t
      | n # s \<Rightarrow>
          \<lparr>shape = s,
           data = map (\<lambda>j. sum_list (map (\<lambda>i. data t ! (i * prod_list s + j)) [0..<n]) / real n)
                    [0..<prod_list s]\<rparr>)"



section \<open>The collective exchange\<close>

text \<open>
  The transport is the library's. Seen from one process it is determined by what the
  other ranks pass to the matching call: \<open>peers i\<close> is the buffer of rank \<open>i\<close>. The
  contribution of rank \<open>i\<close> is then the caller's own buffer at its own rank and
  \<open>peers i\<close> elsewhere.
\<close>

definition contribution :: "dist_env \<Rightarrow> (nat \<Rightarrow> tensor) \<Rightarrow> tensor \<Rightarrow> nat \<Rightarrow> tensor" where
  "contribution env peers t i = (if int i = rank env then t else peers i)"

text \<open>
  \<^verbatim>\<open>dist.all_gather(gathered, tensor)\<close> overwrites \<open>gathered[i]\<close> with the contribution
  of rank \<open>i\<close>, for every \<open>i\<close>. All ranks must pass buffers of one shape; what a
  backend does otherwise is not defined, and is an error here.
\<close>

definition all_gather ::
  "dist_env \<Rightarrow> (nat \<Rightarrow> tensor) \<Rightarrow> tensor list \<Rightarrow> tensor \<Rightarrow> error + tensor list" where
  "all_gather env peers gathered t =
     (let contributions = map (contribution env peers t) [0..<length gathered]
      in if same_shapes t contributions then Inr contributions else Inl GatherMismatch)"

text \<open>What \<^verbatim>\<open>all_gather\<close> delivers on the caller's side, in ascending rank.\<close>

definition received :: "dist_env \<Rightarrow> (nat \<Rightarrow> tensor) \<Rightarrow> tensor \<Rightarrow> tensor list" where
  "received env peers t = map (contribution env peers t) [0..<nat (world_size env)]"



section \<open>sync_tensor (src/dist.py, lines 69 to 100)\<close>

text \<open>
  The result is paired with the collective calls that were issued. The reduction is a
  \<^verbatim>\<open>str | None\<close>.
\<close>

definition sync_tensor ::
  "dist_env \<Rightarrow> (nat \<Rightarrow> tensor) \<Rightarrow> tensor \<Rightarrow> string option \<Rightarrow> (error + tensor) \<times> action list" where
  "sync_tensor env peers t reduction =
     (let num_procs = world_size env in
      if num_procs = 1 then (Inr t, [])
      else
        let gathered = replicate (nat num_procs) (zeros_like t) in
        case all_gather env peers gathered t of
          Inl e \<Rightarrow> (Inl e, [AllGather])
        | Inr gathered \<Rightarrow>
            (case torch_stack gathered of
               Inl e \<Rightarrow> (Inl e, [AllGather])
             | Inr gathered_stack \<Rightarrow>
                 if reduction = Some ''mean'' then (Inr (torch_mean gathered_stack), [AllGather])
                 else if reduction = Some ''sum'' then (Inr (torch_sum gathered_stack), [AllGather])
                 else if reduction = Some ''none'' \<or> reduction = None
                   then (Inr gathered_stack, [AllGather])
                 else (Inl (UnsupportedReduction reduction), [AllGather])))"


section \<open>Python values\<close>

text \<open>
  The values that pass through \<^verbatim>\<open>sync_values\<close> and \<^verbatim>\<open>sync_dict_values\<close>:
  \<^verbatim>\<open>None\<close>, numbers, lists and dictionaries. A dictionary keeps its insertion order,
  so it is an association list; its keys are distinct (\<open>wf_dict\<close>).
\<close>

datatype pyval =
    PNone
  | Num real
  | Lst "pyval list"
  | Dict "(string \<times> pyval) list"

fun wf_dict :: "pyval \<Rightarrow> bool"
  and wf_items :: "(string \<times> pyval) list \<Rightarrow> bool" where
  "wf_dict (Dict kvs) = (distinct (map fst kvs) \<and> wf_items kvs)"
| "wf_dict _ = True"
| "wf_items [] = True"
| "wf_items ((k, v) # kvs) = (wf_dict v \<and> wf_items kvs)"

fun collect :: "(error + 'a) list \<Rightarrow> error + 'a list" where
  "collect [] = Inr []"
| "collect (Inl e # _) = Inl e"
| "collect (Inr x # rs) = (case collect rs of Inl e \<Rightarrow> Inl e | Inr xs \<Rightarrow> Inr (x # xs))"

text \<open>
  \<^verbatim>\<open>torch.tensor(values, dtype=torch.float)\<close>: a number is a 0-dimensional tensor, a
  list of equally shaped items is stacked, the empty list has shape \<open>[0]\<close>; anything
  else is refused.
\<close>

fun torch_tensor :: "pyval \<Rightarrow> error + tensor" where
  "torch_tensor (Num r) = Inr \<lparr>shape = [], data = [r]\<rparr>"
| "torch_tensor (Lst vs) =
     (case collect (map torch_tensor vs) of
        Inl e \<Rightarrow> Inl e
      | Inr ts \<Rightarrow> if ts = [] then Inr \<lparr>shape = [0], data = []\<rparr> else torch_stack ts)"
| "torch_tensor _ = Inl TensorError"

text \<open>
  \<^verbatim>\<open>Tensor.tolist()\<close>: nested lists along the shape; a 0-dimensional tensor (one
  element) is a number.
\<close>

fun tolist_from :: "nat list \<Rightarrow> real list \<Rightarrow> pyval" where
  "tolist_from [] xs = (case xs of [] \<Rightarrow> Lst [] | x # _ \<Rightarrow> Num x)"
| "tolist_from (n # s) xs =
     Lst (map (\<lambda>i. tolist_from s (take (prod_list s) (drop (i * prod_list s) xs))) [0..<n])"

definition tolist :: "tensor \<Rightarrow> pyval" where
  "tolist t = tolist_from (shape t) (data t)"


section \<open>sync_values (src/dist.py, lines 103 to 123)\<close>

text \<open>The \<^verbatim>\<open>device\<close> argument places the buffer and has no part in its value.\<close>

definition sync_values ::
  "dist_env \<Rightarrow> (nat \<Rightarrow> tensor) \<Rightarrow> pyval \<Rightarrow> string option \<Rightarrow> (error + pyval) \<times> action list" where
  "sync_values env peers values reduction =
     (if world_size env = 1 then (Inr values, [])
      else
        case torch_tensor values of
          Inl e \<Rightarrow> (Inl e, [])
        | Inr values_tensor \<Rightarrow>
            (case sync_tensor env peers values_tensor reduction of
               (Inl e, as) \<Rightarrow> (Inl e, as)
             | (Inr out, as) \<Rightarrow> (Inr (tolist out), as)))"


section \<open>Nested dictionaries (utils/nested_dict.py)\<close>

text \<open>
  Modelled from the spec: \<^verbatim>\<open>nested_dict.nested_keys\<close>, of which the source holds only
  the call \<^verbatim>\<open>nested_keys(d, keep_none=False)\<close>. It flattens a mapping into the paths
  to its leaves, a path being the list of keys from the root to the leaf, in the
  mapping's own order; without \<^verbatim>\<open>keep_none\<close> an entry whose leaf is absent
  (\<^verbatim>\<open>None\<close>) is dropped.
\<close>

fun nested_keys :: "bool \<Rightarrow> pyval \<Rightarrow> string list list"
  and nested_keys_items :: "bool \<Rightarrow> (string \<times> pyval) list \<Rightarrow> string list list" where
  "nested_keys keep_none (Dict kvs) = nested_keys_items keep_none kvs"
| "nested_keys keep_none _ = []"
| "nested_keys_items keep_none [] = []"
| "nested_keys_items keep_none ((k, v) # kvs) =
     (case v of
        Dict _ \<Rightarrow> map ((#) k) (nested_keys keep_none v)
      | PNone \<Rightarrow> if keep_none then [[k]] else []
      | _ \<Rightarrow> [[k]])
     @ nested_keys_items keep_none kvs"

text \<open>
  Modelled from the spec: \<^verbatim>\<open>nested_dict.get_recursive\<close>, of which the source holds only
  the call. It reads the value at a path; a path that leaves the mapping reads
  \<^verbatim>\<open>None\<close>.
\<close>

fun get_recursive :: "pyval \<Rightarrow> string list \<Rightarrow> pyval" where
  "get_recursive v [] = v"
| "get_recursive (Dict kvs) (k # ks) =
     (case map_of kvs k of None \<Rightarrow> PNone | Some v \<Rightarrow> get_recursive v ks)"
| "get_recursive _ (k # ks) = PNone"

text \<open>
  Modelled from the spec: the intermediate mapping that \<^verbatim>\<open>nested_dict.set_recursive\<close>
  descends into, a part of that function, of which the source holds only the call. It
  is the mapping already stored under the key, or a fresh one where there is none.
\<close>

definition sub_dict :: "(string \<times> pyval) list \<Rightarrow> string \<Rightarrow> pyval" where
  "sub_dict kvs k = (case map_of kvs k of Some (Dict sub) \<Rightarrow> Dict sub | _ \<Rightarrow> Dict [])"

text \<open>
  Modelled from the spec: \<^verbatim>\<open>nested_dict.set_recursive\<close>, of which the source holds only
  the call. It writes a value at a path, creating intermediate mappings as needed. An
  assignment to a key a dictionary already has keeps the key's position; a new key goes
  last.
\<close>

fun set_recursive :: "pyval \<Rightarrow> string list \<Rightarrow> pyval \<Rightarrow> pyval" where
  "set_recursive out [] v = v"
| "set_recursive out [k] v =
     (case out of Dict kvs \<Rightarrow> Dict (AList.update k v kvs) | _ \<Rightarrow> Dict [(k, v)])"
| "set_recursive out (k # ks) v =
     (case out of
        Dict kvs \<Rightarrow> Dict (AList.update k (set_recursive (sub_dict kvs k) ks v) kvs)
      | _ \<Rightarrow> Dict [(k, set_recursive (Dict []) ks v)])"


section \<open>sync_dict_values (src/dist.py, lines 126 to 154)\<close>

text \<open>
  \<^verbatim>\<open>sorted\<close> on paths is the lexicographic order on lists of strings, strings
  themselves compared character by character.
\<close>

definition sorted_keys :: "pyval \<Rightarrow> string list list" where
  "sorted_keys d = sort (nested_keys False d)"

definition extracted_values :: "pyval \<Rightarrow> pyval list" where
  "extracted_values d = map (get_recursive d) (sorted_keys d)"

definition rebuild :: "string list list \<Rightarrow> pyval list \<Rightarrow> pyval" where
  "rebuild keys vs = foldl (\<lambda>out (k, v). set_recursive out k v) (Dict []) (zip keys vs)"

definition sync_dict_values ::
  "dist_env \<Rightarrow> (nat \<Rightarrow> tensor) \<Rightarrow> pyval \<Rightarrow> string option \<Rightarrow> (error + pyval) \<times> action list" where
  "sync_dict_values env peers d reduction =
     (if world_size env = 1 then (Inr d, [])
      else
        let keys = sorted_keys d;
            values = Lst (extracted_values d)
        in case sync_values env peers values reduction of
             (Inl e, as) \<Rightarrow> (Inl e, as)
           | (Inr values, as) \<Rightarrow>
               (case values of
                  Lst vs \<Rightarrow> (Inr (rebuild keys vs), as)
                | _ \<Rightarrow> (Inl NotIterable, as)))"

text \<open>The (path, value) pairs of a mapping, and the buffer a rank holding it contributes.\<close>

definition flatten :: "pyval \<Rightarrow> (string list \<times> pyval) list" where
  "flatten d = map (\<lambda>k. (k, get_recursive d k)) (nested_keys False d)"

definition dict_buffer :: "pyval \<Rightarrow> tensor" where
  "dict_buffer d =
     (case torch_tensor (Lst (extracted_values d)) of
        Inr t \<Rightarrow> t
      | Inl _ \<Rightarrow> \<lparr>shape = [0], data = []\<rparr>)"

definition peers_holding :: "pyval \<Rightarrow> nat \<Rightarrow> tensor" where
  "peers_holding d i = dict_buffer d"

definition peers_sending :: "real list \<Rightarrow> nat \<Rightarrow> tensor" where
  "peers_sending xs i = \<lparr>shape = [length xs], data = xs\<rparr>"

text \<open>The mappings of the missing-key scenario.\<close>

definition rank0_metrics :: pyval where
  "rank0_metrics = Dict [(''loss'', Dict [(''train'', Num 1)]), (''extra'', Num 5)]"

definition rank0_metrics_absent :: pyval where
  "rank0_metrics_absent = Dict [(''loss'', Dict [(''train'', Num 1)]), (''extra'', PNone)]"

definition rank1_metrics :: pyval where
  "rank1_metrics = Dict [(''loss'', Dict [(''train'', Num 3)])]"

definition mean_metrics :: pyval where
  "mean_metrics = Dict [(''loss'', Dict [(''train'', Num 2)])]"


section \<open>on_main_first (src/dist.py, lines 157 to 207)\<close>

text \<open>
  The context manager, as the actions one process issues in program order: the code
  before \<^verbatim>\<open>yield\<close>, the guarded block (entered and left once), the code after it.
\<close>

definition on_main_first :: "bool \<Rightarrow> bool \<Rightarrow> int list option \<Rightarrow> dist_env \<Rightarrow> action list" where
  "on_main_first enabled join device_ids env =
     (if enabled \<and> is_dist env \<and> \<not> is_main env then [Barrier device_ids] else []) @
     [EnterBlock, LeaveBlock] @
     (if enabled \<and> is_dist env \<and> is_main env then [Barrier device_ids] else []) @
     (if enabled \<and> join \<and> is_dist env then [Barrier device_ids] else [])"

text \<open>
  A group of \<open>n\<close> processes inside the scope: the state is what each rank has still to
  do. A process enters or leaves its block on its own; a barrier is passed by all ranks
  together, once every one of them has arrived at a barrier call.
\<close>

type_synonym group_state = "action list list"


definition at_barrier :: "action list \<Rightarrow> bool" where
  "at_barrier p = (case p of [] \<Rightarrow> False | a # _ \<Rightarrow> is_barrier a)"

inductive group_step :: "group_state \<Rightarrow> group_state \<Rightarrow> bool" where
  enter: "i < length s \<Longrightarrow> s ! i = EnterBlock # rest \<Longrightarrow> group_step s (s[i := rest])"
| leave: "i < length s \<Longrightarrow> s ! i = LeaveBlock # rest \<Longrightarrow> group_step s (s[i := rest])"
| barrier: "s \<noteq> [] \<Longrightarrow> list_all at_barrier s \<Longrightarrow> group_step s (map tl s)"

text \<open>The same steps as a function: all the states one step away.\<close>

definition may_move :: "action list \<Rightarrow> bool" where
  "may_move p = (case p of [] \<Rightarrow> False | a # _ \<Rightarrow> a = EnterBlock \<or> a = LeaveBlock)"

definition group_successors :: "group_state \<Rightarrow> group_state list" where
  "group_successors s =
     map (\<lambda>i. s[i := tl (s ! i)]) (filter (\<lambda>i. may_move (s ! i)) [0..<length s]) @
     (if s \<noteq> [] \<and> list_all at_barrier s then [map tl s] else [])"





text \<open>
  The program of rank \<open>i\<close> inside an enabled scope, and what every reachable state of
  the group satisfies: each rank is somewhere in its program and all ranks have the same
  number of barrier calls still to make.
\<close>

definition scope_program :: "bool \<Rightarrow> (nat \<Rightarrow> int list option) \<Rightarrow> nat \<Rightarrow> nat \<Rightarrow> action list" where
  "scope_program join device_ids n i = on_main_first True join (device_ids i) (group_env n i)"

definition scope_inv :: "bool \<Rightarrow> (nat \<Rightarrow> int list option) \<Rightarrow> nat \<Rightarrow> group_state \<Rightarrow> bool" where
  "scope_inv join device_ids n s \<longleftrightarrow>
     length s = n \<and>
     (\<exists>c. \<forall>i < n. suffix (s ! i) (scope_program join device_ids n i) \<and> count_barriers (s ! i) = c)"



section \<open>The end of main (src/train.py, lines 250 to 251)\<close>





section \<open>Sample inputs\<close>




text \<open>One mapping built in two insertion orders.\<close>

definition metrics_a :: pyval where
  "metrics_a = Dict [(''loss'', Dict [(''train'', Num 1), (''val'', Num 2)]), (''acc'', Num 3)]"

definition metrics_b :: pyval where
  "metrics_b = Dict [(''acc'', Num 3), (''loss'', Dict [(''val'', Num 2), (''train'', Num 1)])]"




section \<open>Properties of the distributed context\<close>

text \<open>
  C10. Whenever no distributed group is initialised, \<open>world_size\<close> is 1, \<open>rank\<close> is 0
  and \<open>is_main\<close> holds, so a process outside a group behaves as the leader of a
  singleton group; and \<open>0 \<le> rank < world_size\<close> holds in every context state, with
  or without a group, the library's guarantee for a live group being \<open>valid_group\<close>.
\<close>

theorem uninitialized_defaults:
  "(\<not> is_dist env \<longrightarrow> world_size env = 1 \<and> rank env = 0 \<and> is_main env) \<and>
   (valid_group env \<longrightarrow> 0 \<le> rank env \<and> rank env < world_size env)"
  by (auto simp: world_size_def rank_def is_main_def valid_group_def)

theorem uninitialized_defaults_witness:
  "\<not> is_dist no_group \<and> valid_group no_group \<and> valid_group (group_env 4 3) \<and>
   world_size no_group = 1 \<and> rank no_group = 0 \<and> is_main no_group \<and>
   0 \<le> rank (group_env 4 3) \<and> rank (group_env 4 3) < world_size (group_env 4 3)"
proof -
  have a: "\<not> is_dist no_group" by (simp add: is_dist_def no_group_def)
  have b: "valid_group no_group" by (simp add: valid_group_def is_dist_def no_group_def)
  have c: "valid_group (group_env 4 3)" by (simp add: valid_group_def is_dist_def group_env_def)
  show ?thesis
    using a b c uninitialized_defaults [of no_group] uninitialized_defaults [of "group_env 4 3"]
    by simp
qed


section \<open>Single-process identity\<close>

text \<open>
  C3. Identity law: whenever the world size is 1, for every reduction mode (valid or
  not), \<open>sync_values\<close> returns its input sequence unchanged and \<open>sync_dict_values\<close>
  returns its input mapping unchanged, and no collective call is issued.
\<close>

theorem single_process_identity:
  "world_size env = 1 \<Longrightarrow>
     sync_values env peers values reduction = (Inr values, []) \<and>
     sync_dict_values env peers d reduction = (Inr d, [])"
  by (simp add: sync_values_def sync_dict_values_def)

text \<open>The law at a singleton group, with an unsupported mode and with no mode.\<close>

theorem single_process_identity_witness:
  "world_size (group_env 1 0) = 1 \<and>
   sync_values (group_env 1 0) (peers_sending [1, 2]) (Lst [Num 4, Num 8]) (Some ''max'') =
     (Inr (Lst [Num 4, Num 8]), []) \<and>
   sync_dict_values (group_env 1 0) (peers_sending [1, 2]) rank0_metrics None =
     (Inr rank0_metrics, [])"
proof -
  have h: "world_size (group_env 1 0) = 1"
    by (simp add: world_size_def is_dist_def group_env_def)
  show ?thesis
    using h single_process_identity [OF h, of "peers_sending [1, 2]" "Lst [Num 4, Num 8]" "Some ''max''" rank0_metrics]
      single_process_identity [OF h, of "peers_sending [1, 2]" "Lst [Num 4, Num 8]" None rank0_metrics]
    by simp
qed


section \<open>The reduction mode is checked after the exchange\<close>

lemma torch_stack_same_shapes:
  "ts \<noteq> [] \<Longrightarrow> same_shapes t ts \<Longrightarrow>
     torch_stack ts = Inr \<lparr>shape = length ts # shape t, data = concat (map data ts)\<rparr>"
  by (cases ts) (auto simp: torch_stack_def same_shapes_def list_all_iff)

lemma sync_tensor_gathered:
  assumes "1 < world_size env" and "same_shapes t (received env peers t)"
  shows "sync_tensor env peers t reduction =
     (let gathered_stack =
        \<lparr>shape = nat (world_size env) # shape t, data = concat (map data (received env peers t))\<rparr>
      in if reduction = Some ''mean'' then (Inr (torch_mean gathered_stack), [AllGather])
         else if reduction = Some ''sum'' then (Inr (torch_sum gathered_stack), [AllGather])
         else if reduction = Some ''none'' \<or> reduction = None
           then (Inr gathered_stack, [AllGather])
         else (Inl (UnsupportedReduction reduction), [AllGather]))"
proof -
  have ne: "received env peers t \<noteq> []"
    using assms(1) by (simp add: received_def)
  have len: "length (received env peers t) = nat (world_size env)"
    by (simp add: received_def)
  have ag: "all_gather env peers (replicate (nat (world_size env)) (zeros_like t)) t
      = Inr (received env peers t)"
    using assms(2) by (simp add: all_gather_def received_def)
  show ?thesis
    using assms(1) ag torch_stack_same_shapes [OF ne assms(2)] len
    by (simp add: sync_tensor_def Let_def)
qed

lemma sync_tensor_issues_gather:
  assumes "world_size env \<noteq> 1"
  shows "snd (sync_tensor env peers t reduction) = [AllGather]"
  using assms
  by (simp add: sync_tensor_def Let_def split: sum.splits)

lemma sync_tensor_unsupported_fails:
  assumes "world_size env \<noteq> 1"
    and "reduction \<notin> {Some ''mean'', Some ''sum'', Some ''none'', None}"
  shows "\<exists>e. fst (sync_tensor env peers t reduction) = Inl e"
  using assms
  by (auto simp: sync_tensor_def Let_def split: sum.splits)

text \<open>
  C1, as the code has it. For every reduction mode outside mean, sum and none: when the
  world size is 1, \<open>sync_tensor\<close> and \<open>sync_values\<close> return their input unchanged,
  raise nothing and issue no collective call; when the world size is not 1 both fail,
  \<open>sync_tensor\<close> only after the \<open>all_gather\<close> has been issued; the failure is the
  unsupported-reduction error whenever the exchange itself succeeds (all ranks
  contribute buffers of one shape).
\<close>

theorem unsupported_reduction_after_gather:
  assumes "reduction \<notin> {Some ''mean'', Some ''sum'', Some ''none'', None}"
  shows "(world_size env = 1 \<longrightarrow>
            sync_tensor env peers t reduction = (Inr t, []) \<and>
            sync_values env peers values reduction = (Inr values, [])) \<and>
         (world_size env \<noteq> 1 \<longrightarrow>
            (\<exists>e. fst (sync_tensor env peers t reduction) = Inl e) \<and>
            snd (sync_tensor env peers t reduction) = [AllGather] \<and>
            (\<exists>e. fst (sync_values env peers values reduction) = Inl e)) \<and>
         (1 < world_size env \<and> same_shapes t (received env peers t) \<longrightarrow>
            sync_tensor env peers t reduction = (Inl (UnsupportedReduction reduction), [AllGather]) \<and>
            (torch_tensor values = Inr t \<longrightarrow>
               sync_values env peers values reduction =
                 (Inl (UnsupportedReduction reduction), [AllGather])))"
proof (intro conjI impI)
  assume "world_size env = 1"
  then show "sync_tensor env peers t reduction = (Inr t, [])"
    by (simp add: sync_tensor_def)
next
  assume "world_size env = 1"
  then show "sync_values env peers values reduction = (Inr values, [])"
    by (simp add: sync_values_def)
next
  assume "world_size env \<noteq> 1"
  then show "\<exists>e. fst (sync_tensor env peers t reduction) = Inl e"
    using assms by (rule sync_tensor_unsupported_fails)
next
  assume "world_size env \<noteq> 1"
  then show "snd (sync_tensor env peers t reduction) = [AllGather]"
    by (rule sync_tensor_issues_gather)
next
  assume many: "world_size env \<noteq> 1"
  show "\<exists>e. fst (sync_values env peers values reduction) = Inl e"
  proof (cases "torch_tensor values")
    case (Inl e)
    with many show ?thesis
      by (simp add: sync_values_def)
  next
    case (Inr u)
    obtain e where "fst (sync_tensor env peers u reduction) = Inl e"
      using sync_tensor_unsupported_fails [OF many assms] by blast
    with many Inr show ?thesis
      by (cases "sync_tensor env peers u reduction") (simp add: sync_values_def)
  qed
next
  assume h: "1 < world_size env \<and> same_shapes t (received env peers t)"
  then show r: "sync_tensor env peers t reduction = (Inl (UnsupportedReduction reduction), [AllGather])"
    using assms by (simp add: sync_tensor_gathered)
  assume "torch_tensor values = Inr t"
  then show "sync_values env peers values reduction =
                 (Inl (UnsupportedReduction reduction), [AllGather])"
    using h r by (simp add: sync_values_def)
qed

text \<open>
  C1 as stated fails: outside any group (world size 1) the mode \<open>''max''\<close> raises
  nothing, and the input comes back.
\<close>

theorem validation_precedes_counterexample:
  "world_size no_group = 1 \<and>
   sync_values no_group (peers_sending [1, 2]) (Lst [Num 4, Num 8]) (Some ''max'') =
     (Inr (Lst [Num 4, Num 8]), []) \<and>
   sync_tensor no_group (peers_sending [1, 2]) \<lparr>shape = [2], data = [4, 8]\<rparr> (Some ''max'') =
     (Inr \<lparr>shape = [2], data = [4, 8]\<rparr>, [])"
  by (simp add: world_size_def is_dist_def no_group_def sync_values_def sync_tensor_def)

text \<open>The amended statement at world size 1 and in a group of two.\<close>

theorem unsupported_reduction_after_gather_witness:
  "Some ''max'' \<notin> {Some ''mean'', Some ''sum'', Some ''none'', None} \<and>
   world_size no_group = 1 \<and>
   1 < world_size (group_env 2 0) \<and>
   same_shapes \<lparr>shape = [2], data = [4, 8]\<rparr>
     (received (group_env 2 0) (peers_sending [1, 2]) \<lparr>shape = [2], data = [4, 8]\<rparr>) \<and>
   torch_tensor (Lst [Num 4, Num 8]) = Inr \<lparr>shape = [2], data = [4, 8]\<rparr> \<and>
   sync_tensor no_group (peers_sending [1, 2]) \<lparr>shape = [2], data = [4, 8]\<rparr> (Some ''max'') =
     (Inr \<lparr>shape = [2], data = [4, 8]\<rparr>, []) \<and>
   sync_tensor (group_env 2 0) (peers_sending [1, 2]) \<lparr>shape = [2], data = [4, 8]\<rparr> (Some ''max'') =
     (Inl (UnsupportedReduction (Some ''max'')), [AllGather]) \<and>
   sync_values (group_env 2 0) (peers_sending [1, 2]) (Lst [Num 4, Num 8]) (Some ''max'') =
     (Inl (UnsupportedReduction (Some ''max'')), [AllGather])"
proof -
  have a: "Some ''max'' \<notin> {Some ''mean'', Some ''sum'', Some ''none'', None}" by simp
  have b: "world_size no_group = 1" by (simp add: world_size_def is_dist_def no_group_def)
  have c: "1 < world_size (group_env 2 0)" by (simp add: world_size_def is_dist_def group_env_def)
  have d: "same_shapes \<lparr>shape = [2], data = [4, 8]\<rparr>
     (received (group_env 2 0) (peers_sending [1, 2]) \<lparr>shape = [2], data = [4, 8]\<rparr>)"
    by (simp add: same_shapes_def received_def world_size_def is_dist_def group_env_def
        contribution_def peers_sending_def upt_conv_Cons)
  have e: "torch_tensor (Lst [Num 4, Num 8]) = Inr \<lparr>shape = [2], data = [4, 8]\<rparr>"
    by (simp add: torch_stack_def same_shapes_def)
  show ?thesis
    using a b c d e
      unsupported_reduction_after_gather [OF a, of no_group "peers_sending [1, 2]"
        "\<lparr>shape = [2], data = [4, 8]\<rparr>" "Lst [Num 4, Num 8]"]
      unsupported_reduction_after_gather [OF a, of "group_env 2 0" "peers_sending [1, 2]"
        "\<lparr>shape = [2], data = [4, 8]\<rparr>" "Lst [Num 4, Num 8]"]
    by simp
qed


section \<open>Barrier calls of the leader-first scope\<close>





section \<open>Releasing the group\<close>






section \<open>Gather and reduce\<close>


















section \<open>Nested synchronisation\<close>

text \<open>The paths of a well-formed mapping are distinct, each starting with one of its keys.\<close>

lemma nested_keys_items_head:
  "p \<in> set (nested_keys_items kn kvs) \<Longrightarrow> \<exists>k ks. p = k # ks \<and> k \<in> fst ` set kvs"
proof (induction kvs)
  case Nil
  then show ?case by simp
next
  case (Cons kv kvs)
  obtain k v where kv: "kv = (k, v)" by (cases kv)
  from Cons show ?case
    unfolding kv by (cases v) (auto split: if_splits)
qed

lemma nested_keys_distinct_both:
  "wf_dict d \<Longrightarrow> distinct (nested_keys kn d)"
  "wf_items kvs \<Longrightarrow> distinct (map fst kvs) \<Longrightarrow> distinct (nested_keys_items kn kvs)"
proof (induction kn d and kn kvs rule: nested_keys_nested_keys_items.induct)
  case (4 keep_none k v kvs)
  let ?here = "case v of
        Dict _ \<Rightarrow> map ((#) k) (nested_keys keep_none v)
      | PNone \<Rightarrow> if keep_none then [[k]] else []
      | _ \<Rightarrow> [[k]]"
  have rest: "distinct (nested_keys_items keep_none kvs)"
    using 4 by simp
  have other: "\<And>p. p \<in> set (nested_keys_items keep_none kvs) \<Longrightarrow> hd p \<noteq> k"
    using "4.prems" nested_keys_items_head [of _ keep_none kvs] by force
  have first: "distinct ?here"
    using 4 by (cases v) (auto simp: distinct_map)
  have heads: "\<And>p. p \<in> set ?here \<Longrightarrow> hd p = k"
    by (cases v) (auto split: if_splits)
  have "set ?here \<inter> set (nested_keys_items keep_none kvs) = {}"
    using other heads by blast
  with rest first show ?case
    by (simp only: nested_keys_items.simps distinct_append)
qed simp_all

lemma nested_keys_distinct: "wf_dict d \<Longrightarrow> distinct (nested_keys kn d)"
  by (rule nested_keys_distinct_both)

lemma flatten_keys: "set (nested_keys False d) = fst ` set (flatten d)"
  by (force simp: flatten_def)

lemma sorted_keys_eq:
  assumes "wf_dict d1" and "wf_dict d2" and "set (flatten d1) = set (flatten d2)"
  shows "sorted_keys d1 = sorted_keys d2"
proof -
  have "set (nested_keys False d1) = set (nested_keys False d2)"
    using assms(3) by (simp add: flatten_keys)
  moreover have "distinct (nested_keys False d1)" "distinct (nested_keys False d2)"
    using assms(1,2) by (simp_all add: nested_keys_distinct)
  ultimately show ?thesis
    unfolding sorted_keys_def
    by (intro sorted_distinct_set_unique) simp_all
qed

lemma flatten_values_agree:
  assumes "set (flatten d1) = set (flatten d2)" and "k \<in> set (nested_keys False d1)"
  shows "get_recursive d1 k = get_recursive d2 k"
proof -
  have "(k, get_recursive d1 k) \<in> set (flatten d1)"
    using assms(2) by (simp add: flatten_def)
  then have "(k, get_recursive d1 k) \<in> set (flatten d2)"
    using assms(1) by simp
  then show ?thesis
    by (auto simp: flatten_def)
qed

lemma same_pairs:
  assumes "wf_dict d1" and "wf_dict d2" and "set (flatten d1) = set (flatten d2)"
  shows "sorted_keys d1 = sorted_keys d2"
    and "extracted_values d1 = extracted_values d2"
    and "dict_buffer d1 = dict_buffer d2"
proof -
  show k: "sorted_keys d1 = sorted_keys d2"
    using assms by (rule sorted_keys_eq)
  have "map (get_recursive d1) (sorted_keys d1) = map (get_recursive d2) (sorted_keys d1)"
    using flatten_values_agree [OF assms(3)] by (simp add: sorted_keys_def)
  then show v: "extracted_values d1 = extracted_values d2"
    using k by (simp add: extracted_values_def)
  show "dict_buffer d1 = dict_buffer d2"
    by (simp add: dict_buffer_def v)
qed

text \<open>
  C6. Insertion-order independence: for two input mappings (dictionaries, so with
  distinct keys at every level) that hold the same set of (path, value) pairs, whatever
  the order in which their keys were inserted, \<open>sync_dict_values\<close> in a group (world
  size other than 1, where the pipeline runs) extracts the values in the same sorted
  path order, contributes the same buffer and gives the same result on the same
  exchange: same error or same output mapping, same collective calls. At world size 1
  nothing is synchronised and each input comes back as it is, the two outputs then
  holding the same pairs as the two inputs do.
\<close>

theorem sync_dict_values_order_independent:
  assumes "wf_dict d1" and "wf_dict d2" and "set (flatten d1) = set (flatten d2)"
  shows "sorted_keys d1 = sorted_keys d2 \<and>
         extracted_values d1 = extracted_values d2 \<and>
         dict_buffer d1 = dict_buffer d2 \<and>
         (world_size env \<noteq> 1 \<longrightarrow>
            sync_dict_values env peers d1 reduction = sync_dict_values env peers d2 reduction) \<and>
         (world_size env = 1 \<longrightarrow>
            sync_dict_values env peers d1 reduction = (Inr d1, []) \<and>
            sync_dict_values env peers d2 reduction = (Inr d2, []))"
  using same_pairs [OF assms]
  by (simp add: sync_dict_values_def)

text \<open>The definitions that evaluate a synchronisation at a concrete input.\<close>

lemmas eval_sync =
  sync_dict_values_def sync_values_def sync_tensor_def world_size_def is_dist_def group_env_def
  all_gather_def contribution_def rank_def peers_sending_def peers_holding_def dict_buffer_def
  same_shapes_def torch_stack_def torch_mean_def torch_sum_def zeros_like_def tolist_def
  sorted_keys_def extracted_values_def rebuild_def sub_dict_def upt_conv_Cons

text \<open>
  Two mappings that differ in insertion order at both levels: the same sorted paths, the
  same values, and the mean with a peer that sends \<open>[5, 6, 7]\<close>.
\<close>

theorem sync_dict_values_order_independent_witness:
  "world_size (group_env 2 0) \<noteq> 1 \<and> wf_dict metrics_a \<and> wf_dict metrics_b \<and>
   set (flatten metrics_a) = set (flatten metrics_b) \<and> metrics_a \<noteq> metrics_b \<and>
   sorted_keys metrics_a = [[''acc''], [''loss'', ''train''], [''loss'', ''val'']] \<and>
   sorted_keys metrics_b = [[''acc''], [''loss'', ''train''], [''loss'', ''val'']] \<and>
   extracted_values metrics_b = [Num 3, Num 1, Num 2] \<and>
   sync_dict_values (group_env 2 0) (peers_sending [5, 6, 7]) metrics_b (Some ''mean'') =
     (Inr (Dict [(''acc'', Num 4), (''loss'', Dict [(''train'', Num (7 / 2)), (''val'', Num (9 / 2))])]),
      [AllGather])"
proof -
  have a: "world_size (group_env 2 0) \<noteq> 1"
    by (simp add: world_size_def is_dist_def group_env_def)
  have b: "wf_dict metrics_a" "wf_dict metrics_b"
    by (simp_all add: metrics_a_def metrics_b_def)
  have c: "set (flatten metrics_a) = set (flatten metrics_b)"
    by (auto simp: flatten_def metrics_a_def metrics_b_def)
  have d: "sorted_keys metrics_a = [[''acc''], [''loss'', ''train''], [''loss'', ''val'']]"
    by (simp add: sorted_keys_def metrics_a_def)
  have e: "extracted_values metrics_a = [Num 3, Num 1, Num 2]"
    by (simp add: extracted_values_def d) (simp add: metrics_a_def)
  have f: "sync_dict_values (group_env 2 0) (peers_sending [5, 6, 7]) metrics_a (Some ''mean'') =
     (Inr (Dict [(''acc'', Num 4), (''loss'', Dict [(''train'', Num (7 / 2)), (''val'', Num (9 / 2))])]),
      [AllGather])"
    by (simp add: eval_sync metrics_a_def)
  have g: "metrics_a \<noteq> metrics_b"
    by (simp add: metrics_a_def metrics_b_def)
  show ?thesis
    using a b c d e f g
      sync_dict_values_order_independent [OF b c, of "group_env 2 0" "peers_sending [5, 6, 7]"
        "Some ''mean''"]
    by simp
qed

text \<open>When every rank sends the caller's own buffer, the rank of the caller does not matter.\<close>

lemma contribution_all_same:
  assumes "\<forall>i < n. peers i = t" and "i < n"
  shows "contribution env peers t i = t"
  using assms by (simp add: contribution_def)

lemma sync_tensor_all_same:
  assumes "\<forall>i < n. peers i = t" and "r < n" and "r' < n"
  shows "sync_tensor (group_env n r) peers t reduction =
         sync_tensor (group_env n r') peers t reduction"
proof -
  have ws: "world_size (group_env n q) = int n" for q
    by (simp add: world_size_def is_dist_def group_env_def)
  have "map (contribution (group_env n q) peers t) [0..<n] = replicate n t" for q
    using contribution_all_same [OF assms(1)]
    by (intro nth_equalityI) simp_all
  then show ?thesis
    by (simp add: sync_tensor_def all_gather_def ws)
qed

text \<open>
  The same across the ranks of one exchange: when every rank holds a mapping with the
  same (path, value) pairs, each in its own insertion order, any two ranks obtain the
  same result.
\<close>

lemma sync_dict_values_same_on_all_ranks:
  assumes "1 < n" and "r < n" and "r' < n"
    and "\<forall>i < n. wf_dict (ds i) \<and> set (flatten (ds i)) = set (flatten (ds r))"
  shows "sync_dict_values (group_env n r) (\<lambda>i. dict_buffer (ds i)) (ds r) reduction =
         sync_dict_values (group_env n r') (\<lambda>i. dict_buffer (ds i)) (ds r') reduction"
proof -
  let ?peers = "\<lambda>i. dict_buffer (ds i)"
  have ws: "world_size (group_env n q) = int n" for q
    by (simp add: world_size_def is_dist_def group_env_def)
  have same: "sorted_keys (ds i) = sorted_keys (ds r) \<and>
      extracted_values (ds i) = extracted_values (ds r) \<and>
      dict_buffer (ds i) = dict_buffer (ds r)" if "i < n" for i
  proof -
    have "wf_dict (ds i)" "wf_dict (ds r)" "set (flatten (ds i)) = set (flatten (ds r))"
      using assms(4) [rule_format, OF that] assms(4) [rule_format, OF assms(2)] by blast+
    then show ?thesis
      by (intro conjI same_pairs)
  qed
  have vals: "sync_values (group_env n r) ?peers (Lst (extracted_values (ds r))) reduction =
      sync_values (group_env n r') ?peers (Lst (extracted_values (ds r))) reduction"
  proof (cases "torch_tensor (Lst (extracted_values (ds r)))")
    case (Inl e)
    then show ?thesis
      by (simp add: sync_values_def ws)
  next
    case (Inr t)
    then have b: "dict_buffer (ds r) = t"
      by (simp add: dict_buffer_def)
    have "\<forall>i < n. ?peers i = t"
    proof (intro allI impI)
      fix i
      assume "i < n"
      from same [OF this] have "dict_buffer (ds i) = dict_buffer (ds r)"
        by blast
      from this b show "dict_buffer (ds i) = t"
        by (rule trans)
    qed
    then have "sync_tensor (group_env n r) ?peers t reduction =
        sync_tensor (group_env n r') ?peers t reduction"
      using assms(2,3) by (rule sync_tensor_all_same)
    with Inr show ?thesis
      by (simp add: sync_values_def ws)
  qed
  show ?thesis
    using assms(1) same [OF assms(3)] vals by (simp add: sync_dict_values_def ws)
qed

text \<open>Flattening without \<open>keep_none\<close> drops the paths whose leaf is \<open>None\<close>, and only those.\<close>

lemma get_recursive_skip:
  "p \<noteq> [] \<Longrightarrow> hd p \<noteq> k \<Longrightarrow> get_recursive (Dict ((k, v) # kvs)) p = get_recursive (Dict kvs) p"
  by (cases p) simp_all

lemma nested_keys_drop_both:
  "wf_dict d \<Longrightarrow>
     set (nested_keys False d) = {p \<in> set (nested_keys True d). get_recursive d p \<noteq> PNone}"
  "wf_items kvs \<Longrightarrow> distinct (map fst kvs) \<Longrightarrow>
     set (nested_keys_items False kvs) =
       {p \<in> set (nested_keys_items True kvs). get_recursive (Dict kvs) p \<noteq> PNone}"
proof (induction d and kvs rule: wf_dict_wf_items.induct)
  case (1 kvs)
  then show ?case by simp
next
  case (4 k v kvs)
  let ?d = "Dict ((k, v) # kvs)"
  let ?here = "\<lambda>kn. case v of
        Dict _ \<Rightarrow> map ((#) k) (nested_keys kn v)
      | PNone \<Rightarrow> if kn then [[k]] else []
      | _ \<Rightarrow> [[k]]"
  have here: "set (?here False) = {p \<in> set (?here True). get_recursive ?d p \<noteq> PNone}"
  proof (cases v)
    case (Dict sub)
    have "set (nested_keys False v) = {p \<in> set (nested_keys True v). get_recursive v p \<noteq> PNone}"
      using "4.IH"(1) "4.prems" by simp
    then show ?thesis
      using Dict by auto
  qed auto
  have rest: "set (nested_keys_items False kvs) =
      {p \<in> set (nested_keys_items True kvs). get_recursive (Dict kvs) p \<noteq> PNone}"
    using "4.IH"(2) "4.prems" by simp
  have "get_recursive ?d p = get_recursive (Dict kvs) p"
    if p: "p \<in> set (nested_keys_items True kvs)" for p
  proof -
    obtain k' ks where "p = k' # ks" "k' \<in> fst ` set kvs"
      using nested_keys_items_head [OF p] by blast
    then show ?thesis
      using "4.prems" by (auto simp: get_recursive_skip)
  qed
  then have "set (nested_keys_items False kvs) =
      {p \<in> set (nested_keys_items True kvs). get_recursive ?d p \<noteq> PNone}"
    using rest by auto
  with here show ?case
    by (simp only: nested_keys_items.simps set_append) blast
qed simp_all

text \<open>
  Whatever values come back from the exchange, rank 0 of the missing-key scenario writes
  them under its own paths, \<open>extra\<close> first: its output is never the mapping with
  \<open>loss.train\<close> alone.
\<close>

lemma rebuild_keeps_extra:
  "rebuild [[''extra''], [''loss'', ''train'']] vs \<noteq> mean_metrics"
proof (cases vs)
  case Nil
  then show ?thesis by (simp add: rebuild_def mean_metrics_def)
next
  case (Cons v ws)
  then show ?thesis
    by (cases ws) (simp_all add: rebuild_def sub_dict_def mean_metrics_def)
qed

text \<open>
  C7, as the code has it. Flattening for nested synchronisation drops every entry whose
  leaf is absent (\<open>None\<close>) on the calling process, and no other entry; in a group of
  two where rank 0 holds \<open>{loss: {train: 1.0}, extra: None}\<close> and rank 1 holds
  \<open>{loss: {train: 3.0}}\<close>, the mean is \<open>{loss: {train: 2.0}}\<close> on both ranks.
\<close>

theorem absent_leaf_dropped:
  "(wf_dict d \<longrightarrow>
      set (nested_keys False d) = {p \<in> set (nested_keys True d). get_recursive d p \<noteq> PNone}) \<and>
   sync_dict_values (group_env 2 0) (peers_holding rank1_metrics) rank0_metrics_absent (Some ''mean'') =
     (Inr mean_metrics, [AllGather]) \<and>
   sync_dict_values (group_env 2 1) (peers_holding rank0_metrics_absent) rank1_metrics (Some ''mean'') =
     (Inr mean_metrics, [AllGather])"
proof (intro conjI impI)
  assume "wf_dict d"
  then show "set (nested_keys False d) =
      {p \<in> set (nested_keys True d). get_recursive d p \<noteq> PNone}"
    by (rule nested_keys_drop_both)
next
  show "sync_dict_values (group_env 2 0) (peers_holding rank1_metrics) rank0_metrics_absent
      (Some ''mean'') = (Inr mean_metrics, [AllGather])"
    by (simp add: eval_sync rank0_metrics_absent_def rank1_metrics_def mean_metrics_def)
next
  show "sync_dict_values (group_env 2 1) (peers_holding rank0_metrics_absent) rank1_metrics
      (Some ''mean'') = (Inr mean_metrics, [AllGather])"
    by (simp add: eval_sync rank0_metrics_absent_def rank1_metrics_def mean_metrics_def)
qed

text \<open>The drop law at rank 0's mapping: of its two paths only \<open>loss.train\<close> is kept.\<close>

theorem absent_leaf_dropped_witness:
  "wf_dict rank0_metrics_absent \<and>
   nested_keys True rank0_metrics_absent = [[''loss'', ''train''], [''extra'']] \<and>
   get_recursive rank0_metrics_absent [''extra''] = PNone \<and>
   get_recursive rank0_metrics_absent [''loss'', ''train''] = Num 1 \<and>
   set (nested_keys False rank0_metrics_absent) = {[''loss'', ''train'']}"
proof -
  have a: "wf_dict rank0_metrics_absent"
    by (simp add: rank0_metrics_absent_def)
  have b: "nested_keys True rank0_metrics_absent = [[''loss'', ''train''], [''extra'']]"
    "get_recursive rank0_metrics_absent [''extra''] = PNone"
    "get_recursive rank0_metrics_absent [''loss'', ''train''] = Num 1"
    by (simp_all add: rank0_metrics_absent_def)
  have c: "{p \<in> set (nested_keys True rank0_metrics_absent).
      get_recursive rank0_metrics_absent p \<noteq> PNone} = {[''loss'', ''train'']}"
    unfolding b(1) using b(2,3) by auto
  have "set (nested_keys False rank0_metrics_absent) =
      {p \<in> set (nested_keys True rank0_metrics_absent).
         get_recursive rank0_metrics_absent p \<noteq> PNone}"
    using a absent_leaf_dropped [of rank0_metrics_absent] by blast
  then have "set (nested_keys False rank0_metrics_absent) = {[''loss'', ''train'']}"
    by (simp only: c)
  with a b show ?thesis
    by blast
qed

text \<open>
  C7 as stated fails: with \<open>extra: 5.0\<close> on rank 0 the entry is not dropped. Rank 0
  packs two values where rank 1 packs one, and its result is not
  \<open>{loss: {train: 2.0}}\<close>.
\<close>

theorem missing_key_counterexample:
  "sorted_keys rank0_metrics = [[''extra''], [''loss'', ''train'']] \<and>
   extracted_values rank0_metrics = [Num 5, Num 1] \<and>
   sync_dict_values (group_env 2 0) (peers_holding rank1_metrics) rank0_metrics (Some ''mean'') \<noteq>
     (Inr mean_metrics, [AllGather])"
  by (simp add: eval_sync rank0_metrics_def rank1_metrics_def mean_metrics_def)


section \<open>Leader-first ordering\<close>

text \<open>The programs of the leader and of a follower in an enabled scope.\<close>

lemma group_env_facts:
  "is_dist (group_env n i)" "is_main (group_env n i) \<longleftrightarrow> i = 0"
  by (simp_all add: is_dist_def is_main_def rank_def group_env_def)

lemma scope_program_leader:
  "scope_program join device_ids n 0 =
     [EnterBlock, LeaveBlock, Barrier (device_ids 0)] @
     (if join then [Barrier (device_ids 0)] else [])"
  by (simp add: scope_program_def on_main_first_def group_env_facts)

lemma scope_program_follower:
  "0 < i \<Longrightarrow> scope_program join device_ids n i =
     [Barrier (device_ids i), EnterBlock, LeaveBlock] @
     (if join then [Barrier (device_ids i)] else [])"
  by (simp add: scope_program_def on_main_first_def group_env_facts)



lemma count_barriers_Cons:
  "count_barriers (a # p) = (if is_barrier a then Suc (count_barriers p) else count_barriers p)"
  by (simp add: count_barriers_def)






text \<open>The step relation and the successor function describe the same steps.\<close>

lemma group_step_successors: "group_step s t \<longleftrightarrow> t \<in> set (group_successors s)"
proof
  assume "group_step s t"
  then show "t \<in> set (group_successors s)"
  proof cases
    case (enter i rest)
    then have "may_move (s ! i)" "t = s[i := tl (s ! i)]"
      by (simp_all add: may_move_def)
    with enter(2) show ?thesis
      by (auto simp: group_successors_def)
  next
    case (leave i rest)
    then have "may_move (s ! i)" "t = s[i := tl (s ! i)]"
      by (simp_all add: may_move_def)
    with leave(2) show ?thesis
      by (auto simp: group_successors_def)
  next
    case barrier
    then show ?thesis
      by (simp add: group_successors_def)
  qed
next
  assume "t \<in> set (group_successors s)"
  then consider i where "i < length s" "may_move (s ! i)" "t = s[i := tl (s ! i)]"
    | "s \<noteq> []" "list_all at_barrier s" "t = map tl s"
    by (auto simp: group_successors_def split: if_splits)
  then show "group_step s t"
  proof cases
    case 1
    then obtain a rest where p: "s ! i = a # rest" "a = EnterBlock \<or> a = LeaveBlock"
      by (cases "s ! i") (auto simp: may_move_def)
    with 1 show ?thesis
      by (auto intro: group_step.enter group_step.leave)
  next
    case 2
    then show ?thesis
      by (auto intro: group_step.barrier)
  qed
qed

text \<open>
  No deadlock inside the scope: while some rank still has something to do, the group
  can take a step.
\<close>

lemma scope_progress:
  assumes "scope_inv join device_ids n s" and "\<exists>i < n. s ! i \<noteq> []"
  shows "\<exists>t. group_step s t"
proof (cases "list_all at_barrier s")
  case True
  moreover have "s \<noteq> []" using assms by (auto simp: scope_inv_def)
  ultimately show ?thesis by (blast intro: group_step.barrier)
next
  case False
  from assms(1) obtain c where len: "length s = n"
    and c: "\<forall>j < n. suffix (s ! j) (scope_program join device_ids n j) \<and> count_barriers (s ! j) = c"
    unfolding scope_inv_def by blast
  from False obtain i where i: "i < n" "\<not> at_barrier (s ! i)"
    using len by (auto simp: list_all_length)
  show ?thesis
  proof (cases "s ! i")
    case Nil
    then have c0: "c = 0" using c i by (auto simp: count_barriers_def)
    from assms(2) obtain j where j: "j < n" "s ! j \<noteq> []" by blast
    then obtain a rest where p: "s ! j = a # rest" by (cases "s ! j") auto
    have "count_barriers (s ! j) = 0" using c c0 j by simp
    then have "\<not> is_barrier a" using p by (simp add: count_barriers_Cons split: if_splits)
    moreover have "suffix (a # rest) (scope_program join device_ids n j)" using c j p by auto
    then have "a \<in> set (scope_program join device_ids n j)"
      by (meson list.set_intros(1) set_mono_suffix subsetD)
    then have "is_barrier a \<or> a = EnterBlock \<or> a = LeaveBlock"
      by (cases "j = 0") (auto simp: scope_program_leader scope_program_follower split: if_splits)
    ultimately have "a = EnterBlock \<or> a = LeaveBlock" by blast
    with p j len show ?thesis
      by (auto intro: group_step.enter group_step.leave)
  next
    case (Cons a rest)
    with i have nb: "\<not> is_barrier a" by (simp add: at_barrier_def)
    have "suffix (a # rest) (scope_program join device_ids n i)" using c i Cons by auto
    then have "a \<in> set (scope_program join device_ids n i)"
      by (meson list.set_intros(1) set_mono_suffix subsetD)
    then have "is_barrier a \<or> a = EnterBlock \<or> a = LeaveBlock"
      by (cases "i = 0") (auto simp: scope_program_leader scope_program_follower split: if_splits)
    with nb have "a = EnterBlock \<or> a = LeaveBlock" by blast
    with Cons i len show ?thesis
      by (auto intro: group_step.enter group_step.leave)
  qed
qed







end
